theory Spec2Isabelle
  imports Main
begin

section \<open>Python values and syntax-tree nodes\<close>

text \<open>
  The rewriter of \<^verbatim>\<open>code_optimizer.py\<close> inspects a dynamically typed tree: every test
  is an \<^verbatim>\<open>isinstance\<close> on a run-time class or a read of an attribute that may or may
  not be there. A node is therefore its class name with the attributes it carries, in the
  order of the class's \<^verbatim>\<open>_fields\<close>; an attribute that is absent from the list is
  absent from the object. Attribute values are nodes, lists, or constants. Source positions
  (\<^verbatim>\<open>lineno\<close> and the like) are not fields and are left out.
\<close>

datatype pv =
    AST string "(string \<times> pv) list"
  | PList "pv list"
  | PStr string
  | PBytes string
  | PInt int
  | PBool bool
  | PNone
  | POpaque string

text \<open>
  \<^const>\<open>POpaque\<close> stands for the remaining constants (floats, complex numbers, the
  ellipsis), kept by their printed form: none of them is a node or a list, or has a length.
\<close>

datatype exn =
    SyntaxError | ValueError | UnicodeDecodeError | UnicodeEncodeError
  | AttributeError | TypeError | IndexError | OSError | RecursionError | MemoryError

type_synonym 'a result = "exn + 'a"

fun lookup :: "string \<Rightarrow> (string \<times> pv) list \<Rightarrow> pv option" where
  "lookup k [] = None"
| "lookup k ((k', v) # fs) = (if k = k' then Some v else lookup k fs)"

fun update :: "string \<Rightarrow> pv \<Rightarrow> (string \<times> pv) list \<Rightarrow> (string \<times> pv) list" where
  "update k v [] = [(k, v)]"
| "update k v ((k', v') # fs) = (if k = k' then (k, v) # fs else (k', v') # update k v fs)"

text \<open>
  \<^verbatim>\<open>x.k\<close>: the attribute of a node, \<^verbatim>\<open>AttributeError\<close> when the node does not carry
  it. The rewriter reads only \<^verbatim>\<open>target\<close>, \<^verbatim>\<open>iter\<close>, \<^verbatim>\<open>func\<close>, \<^verbatim>\<open>id\<close>,
  \<^verbatim>\<open>body\<close>, \<^verbatim>\<open>value\<close>, \<^verbatim>\<open>args\<close>, \<^verbatim>\<open>name\<close> and \<^verbatim>\<open>decorator_list\<close>; no list,
  string, number or \<^verbatim>\<open>None\<close> has an attribute of one of these names.
\<close>

fun getattr :: "pv \<Rightarrow> string \<Rightarrow> pv result" where
  "getattr (AST c fs) k = (case lookup k fs of None \<Rightarrow> Inl AttributeError | Some v \<Rightarrow> Inr v)"
| "getattr _ k = Inl AttributeError"

fun setattr :: "pv \<Rightarrow> string \<Rightarrow> pv \<Rightarrow> pv" where
  "setattr (AST c fs) k v = AST c (update k v fs)"
| "setattr x k v = x"

text \<open>\<^verbatim>\<open>isinstance(x, ast.C)\<close>: no class the rewriter tests for has a subclass.\<close>

fun isinstance :: "pv \<Rightarrow> string \<Rightarrow> bool" where
  "isinstance (AST c fs) c' = (c = c')"
| "isinstance _ c' = False"

fun is_AST :: "pv \<Rightarrow> bool" where
  "is_AST (AST c fs) = True"
| "is_AST _ = False"

text \<open>\<^verbatim>\<open>len(x)\<close>: lists, strings and bytes have a length, anything else raises.\<close>

fun py_len :: "pv \<Rightarrow> nat result" where
  "py_len (PList xs) = Inr (length xs)"
| "py_len (PStr s) = Inr (length s)"
| "py_len (PBytes s) = Inr (length s)"
| "py_len _ = Inl TypeError"

text \<open>
  \<^verbatim>\<open>x[0]\<close>: the first member of a list, the first character of a string, the first
  byte of a bytes object as a number; \<^verbatim>\<open>IndexError\<close> when there is none and
  \<^verbatim>\<open>TypeError\<close> on anything else.
\<close>

fun item0 :: "pv \<Rightarrow> pv result" where
  "item0 (PList (x # xs)) = Inr x"
| "item0 (PList []) = Inl IndexError"
| "item0 (PStr (c # cs)) = Inr (PStr [c])"
| "item0 (PStr []) = Inl IndexError"
| "item0 (PBytes (c # cs)) = Inr (PInt (int (of_char c)))"
| "item0 (PBytes []) = Inl IndexError"
| "item0 _ = Inl TypeError"

text \<open>Sequencing of steps that may raise: the first exception ends the computation.\<close>

definition bind :: "'a result \<Rightarrow> ('a \<Rightarrow> 'b result) \<Rightarrow> 'b result" where
  "bind m f = (case m of Inl e \<Rightarrow> Inl e | Inr x \<Rightarrow> f x)"

text \<open>\<^verbatim>\<open>a and b\<close> on conditions that may raise: \<^verbatim>\<open>b\<close> is evaluated only when \<^verbatim>\<open>a\<close> holds.\<close>

definition and_then :: "bool result \<Rightarrow> bool result \<Rightarrow> bool result" where
  "and_then a b = bind a (\<lambda>x. if x then b else Inr False)"

section \<open>The rewrite rules\<close>

definition Load :: pv where
  "Load = AST ''Load'' []"

definition Name :: "string \<Rightarrow> pv" where
  "Name n = AST ''Name'' [(''id'', PStr n), (''ctx'', Load)]"

text \<open>The statement built at line 38: \<^verbatim>\<open>print("Hello")\<close>.\<close>

definition print_hello :: pv where
  "print_hello =
     AST ''Expr'' [(''value'',
       AST ''Call'' [(''func'', Name ''print''),
                     (''args'', PList [AST ''Constant'' [(''value'', PStr ''Hello'')]]),
                     (''keywords'', PList [])])]"

text \<open>The condition of lines 27 to 32, conjunct by conjunct.\<close>

definition for_shape :: "pv \<Rightarrow> bool result" where
  "for_shape node =
     and_then (bind (getattr node ''target'') (\<lambda>t. Inr (isinstance t ''Name'')))
    (and_then (bind (getattr node ''iter'') (\<lambda>i. Inr (isinstance i ''Call'')))
    (and_then (bind (getattr node ''iter'') (\<lambda>i. bind (getattr i ''func'') (\<lambda>f.
                 Inr (isinstance f ''Name''))))
    (and_then (bind (getattr node ''iter'') (\<lambda>i. bind (getattr i ''func'') (\<lambda>f.
                 bind (getattr f ''id'') (\<lambda>n. Inr (n = PStr ''range'')))))
    (and_then (bind (getattr node ''body'') (\<lambda>b. bind (py_len b) (\<lambda>l. Inr (l = 1))))
              (bind (getattr node ''body'') (\<lambda>b. bind (item0 b) (\<lambda>s.
                 Inr (isinstance s ''Expr''))))))))"

definition visit_For :: "pv \<Rightarrow> pv result" where
  "visit_For node =
     bind (for_shape node) (\<lambda>shape.
       if shape then
         bind (getattr node ''body'') (\<lambda>b. bind (item0 b) (\<lambda>s. bind (getattr s ''value'') (\<lambda>v.
           if isinstance v ''Call'' then
             bind (getattr v ''func'') (\<lambda>f. bind (getattr f ''id'') (\<lambda>call_func.
               if call_func = PStr ''print'' then Inr (PList [print_hello]) else Inr node))
           else Inr node)))
       else Inr node)"

definition visit_Call :: "pv \<Rightarrow> pv result" where
  "visit_Call node =
     bind (and_then (bind (getattr node ''func'') (\<lambda>f. Inr (isinstance f ''Name'')))
                    (bind (getattr node ''func'') (\<lambda>f. bind (getattr f ''id'') (\<lambda>n.
                       Inr (n = PStr ''list''))))) (\<lambda>is_list.
       if is_list then
         bind (and_then (bind (getattr node ''args'') (\<lambda>a. bind (py_len a) (\<lambda>l. Inr (l = 1))))
                        (bind (getattr node ''args'') (\<lambda>a. bind (item0 a) (\<lambda>x.
                           Inr (isinstance x ''Call''))))) (\<lambda>one_call.
           if one_call then
             bind (getattr node ''args'') (\<lambda>a. bind (item0 a) (\<lambda>x.
               bind (and_then (bind (getattr x ''func'') (\<lambda>f. Inr (isinstance f ''Name'')))
                              (bind (getattr x ''func'') (\<lambda>f. bind (getattr f ''id'') (\<lambda>n.
                                 Inr (n = PStr ''set''))))) (\<lambda>is_set.
                 if is_set then Inr x else Inr node)))
           else Inr node)
       else Inr node)"

text \<open>
  \<^verbatim>\<open>node.decorator_list.append(decorator)\<close>: only a list has \<^verbatim>\<open>append\<close>; the list is
  extended in place, so the node keeps every other attribute.
\<close>

definition visit_FunctionDef :: "pv \<Rightarrow> pv result" where
  "visit_FunctionDef node =
     bind (getattr node ''name'') (\<lambda>n.
       if n = PStr ''fib'' then
         bind (getattr node ''decorator_list'') (\<lambda>d.
           case d of
             PList ds \<Rightarrow> Inr (setattr node ''decorator_list'' (PList (ds @ [Name ''lru_cache''])))
           | _ \<Rightarrow> Inl AttributeError)
       else Inr node)"

section \<open>The traversal\<close>

text \<open>
  \<^verbatim>\<open>NodeTransformer.visit\<close> dispatches on the class name to the four methods the class
  defines and to \<^verbatim>\<open>generic_visit\<close> otherwise. Of the four only \<^verbatim>\<open>visit_ListComp\<close> calls
  \<^verbatim>\<open>generic_visit\<close>. \<^verbatim>\<open>generic_visit\<close> walks the fields in order: the nodes of a list
  field are visited and a returned list is spliced in, a node field is visited and set to
  what the visit returns, anything else is left alone.
\<close>

function visit :: "pv \<Rightarrow> pv result"
  and visit_fields :: "(string \<times> pv) list \<Rightarrow> (string \<times> pv) list result"
  and visit_items :: "pv list \<Rightarrow> pv list result" where
  "visit (AST c fs) =
     (if c = ''For'' then visit_For (AST c fs)
      else if c = ''Call'' then visit_Call (AST c fs)
      else if c = ''FunctionDef'' then visit_FunctionDef (AST c fs)
      else if c = ''ListComp'' then bind (visit_fields fs) (\<lambda>fs'. Inr (AST c fs'))
      else bind (visit_fields fs) (\<lambda>fs'. Inr (AST c fs')))"
| "visit (PList xs) = Inl AttributeError"
| "visit (PStr s) = Inl AttributeError"
| "visit (PBytes s) = Inl AttributeError"
| "visit (PInt i) = Inl AttributeError"
| "visit (PBool b) = Inl AttributeError"
| "visit PNone = Inl AttributeError"
| "visit (POpaque s) = Inl AttributeError"
| "visit_fields [] = Inr []"
| "visit_fields ((k, v) # fs) =
     (case v of
        PList xs \<Rightarrow> bind (visit_items xs) (\<lambda>ys.
                     bind (visit_fields fs) (\<lambda>fs'. Inr ((k, PList ys) # fs')))
      | AST c a \<Rightarrow> bind (visit (AST c a)) (\<lambda>new_node.
                     if new_node = PNone then visit_fields fs
                     else bind (visit_fields fs) (\<lambda>fs'. Inr ((k, new_node) # fs')))
      | _ \<Rightarrow> bind (visit_fields fs) (\<lambda>fs'. Inr ((k, v) # fs')))"
| "visit_items [] = Inr []"
| "visit_items (x # xs) =
     (case x of
        AST c a \<Rightarrow> bind (visit (AST c a)) (\<lambda>value.
                     case value of
                       PNone \<Rightarrow> visit_items xs
                     | AST c' a' \<Rightarrow> bind (visit_items xs) (\<lambda>ys. Inr (value # ys))
                     | PList zs \<Rightarrow> bind (visit_items xs) (\<lambda>ys. Inr (zs @ ys))
                     | _ \<Rightarrow> Inl TypeError)
      | _ \<Rightarrow> bind (visit_items xs) (\<lambda>ys. Inr (x # ys)))"
  by pat_completeness auto
termination
  by (relation "measure (\<lambda>x. case x of
          Inl t \<Rightarrow> size t
        | Inr (Inl fs) \<Rightarrow> size_list (size_prod (\<lambda>_. 0) size) fs
        | Inr (Inr xs) \<Rightarrow> size_list size xs)") auto

text \<open>
  The nodes a pass reaches: \<^const>\<open>visit\<close> goes below every node except a
  \<^verbatim>\<open>For\<close>, a \<^verbatim>\<open>Call\<close> and a \<^verbatim>\<open>FunctionDef\<close>. \<open>reaches_fib t\<close> holds when the
  pass over \<open>t\<close> comes to a \<^verbatim>\<open>FunctionDef\<close> whose name is \<^verbatim>\<open>fib\<close>.
\<close>

function reaches_fib :: "pv \<Rightarrow> bool"
  and reaches_fib_fields :: "(string \<times> pv) list \<Rightarrow> bool"
  and reaches_fib_items :: "pv list \<Rightarrow> bool" where
  "reaches_fib (AST c fs) =
     (if c = ''For'' then False
      else if c = ''Call'' then False
      else if c = ''FunctionDef'' then getattr (AST c fs) ''name'' = Inr (PStr ''fib'')
      else reaches_fib_fields fs)"
| "reaches_fib (PList xs) = False"
| "reaches_fib (PStr s) = False"
| "reaches_fib (PBytes s) = False"
| "reaches_fib (PInt i) = False"
| "reaches_fib (PBool b) = False"
| "reaches_fib PNone = False"
| "reaches_fib (POpaque s) = False"
| "reaches_fib_fields [] = False"
| "reaches_fib_fields ((k, v) # fs) =
     (case v of
        PList xs \<Rightarrow> reaches_fib_items xs \<or> reaches_fib_fields fs
      | AST c a \<Rightarrow> reaches_fib (AST c a) \<or> reaches_fib_fields fs
      | _ \<Rightarrow> reaches_fib_fields fs)"
| "reaches_fib_items [] = False"
| "reaches_fib_items (x # xs) = (reaches_fib x \<or> reaches_fib_items xs)"
  by pat_completeness auto
termination
  by (relation "measure (\<lambda>x. case x of
          Inl t \<Rightarrow> size t
        | Inr (Inl fs) \<Rightarrow> size_list (size_prod (\<lambda>_. 0) size) fs
        | Inr (Inr xs) \<Rightarrow> size_list size xs)") auto

section \<open>Rewriting a file\<close>

text \<open>
  \<^verbatim>\<open>optimize_code\<close> works in the \<^verbatim>\<open>try\<close> block of lines 98 to 111. It opens the
  file and reads its text (lines 99 and 100), parses it, runs the pass and prints the tree
  back (lines 102 to 106; \<^verbatim>\<open>ast.fix_missing_locations\<close> sets source positions only),
  and then opens the file for writing, which empties it, and writes the text (lines 108
  and 109).

  What the Python library and the operating system do is taken as given: the parser and the
  printer, the codec that turns the bytes of a file into text and text into bytes, whether
  a file can be opened for writing, and how many bytes the device takes before it fails
  (\<open>None\<close> when it takes them all). The files are a map from paths to their bytes; a path
  that is not in the map cannot be opened.
\<close>

record env =
  ast_parse :: "string \<Rightarrow> pv result"
  ast_unparse :: "pv \<Rightarrow> string result"
  file_decode :: "string \<Rightarrow> string result"
  file_encode :: "string \<Rightarrow> string result"
  read_only :: "string \<Rightarrow> bool"
  disk :: "string \<Rightarrow> nat option"

text \<open>
  The clause \<^verbatim>\<open>except (SyntaxError, ValueError)\<close> of line 113 catches these two classes
  and their subclasses, among them the two errors of a codec; it prints a message. Any
  other exception leaves the function.
\<close>

fun caught :: "exn \<Rightarrow> bool" where
  "caught SyntaxError = True"
| "caught ValueError = True"
| "caught UnicodeDecodeError = True"
| "caught UnicodeEncodeError = True"
| "caught _ = False"

datatype outcome = Applied | Failed exn | Raised exn

definition handle :: "exn \<Rightarrow> outcome" where
  "handle e = (if caught e then Failed e else Raised e)"

text \<open>Lines 99 and 100: \<^verbatim>\<open>open(file_path, "r")\<close> and \<^verbatim>\<open>file.read()\<close>.\<close>

definition read_file :: "env \<Rightarrow> (string \<rightharpoonup> string) \<Rightarrow> string \<Rightarrow> string result" where
  "read_file io files file_path =
     (case files file_path of None \<Rightarrow> Inl OSError | Some bytes \<Rightarrow> file_decode io bytes)"

text \<open>Lines 99 to 106: from the stored file to the text that is to be written.\<close>

definition optimized_code :: "env \<Rightarrow> (string \<rightharpoonup> string) \<Rightarrow> string \<Rightarrow> string result" where
  "optimized_code io files file_path =
     bind (read_file io files file_path) (\<lambda>source_code.
     bind (ast_parse io source_code) (\<lambda>tree.
     bind (visit tree) (\<lambda>optimized_tree.
     ast_unparse io optimized_tree)))"

text \<open>
  Lines 108 and 109. \<^verbatim>\<open>open(file_path, "w")\<close> raises \<^verbatim>\<open>OSError\<close> on a file that
  cannot be written and otherwise empties it. \<^verbatim>\<open>file.write\<close> encodes the text, which
  may raise, and the bytes go to the device when the file is closed, which may fail after a
  part of them.
\<close>

definition write_file ::
  "env \<Rightarrow> (string \<rightharpoonup> string) \<Rightarrow> string \<Rightarrow> string \<Rightarrow> outcome \<times> (string \<rightharpoonup> string)" where
  "write_file io files file_path text =
     (if read_only io file_path then (handle OSError, files)
      else case file_encode io text of
             Inl e \<Rightarrow> (handle e, files(file_path \<mapsto> []))
           | Inr bytes \<Rightarrow>
               (case disk io bytes of
                  Some n \<Rightarrow> (handle OSError, files(file_path \<mapsto> take n bytes))
                | None \<Rightarrow> (Applied, files(file_path \<mapsto> bytes))))"

definition optimize_code ::
  "env \<Rightarrow> (string \<rightharpoonup> string) \<Rightarrow> string \<Rightarrow> outcome \<times> (string \<rightharpoonup> string)" where
  "optimize_code io files file_path =
     (case optimized_code io files file_path of
        Inl e \<Rightarrow> (handle e, files)
      | Inr text \<Rightarrow> write_file io files file_path text)"

section \<open>Trees as \<^verbatim>\<open>ast.parse\<close> builds them\<close>

text \<open>
  Constructors for the node classes the examples below use, each with the fields of its
  class in the order of \<^verbatim>\<open>_fields\<close>; optional fields the parser leaves empty
  are \<^verbatim>\<open>None\<close>.
\<close>

definition Module :: "pv list \<Rightarrow> pv" where
  "Module body = AST ''Module'' [(''body'', PList body), (''type_ignores'', PList [])]"

definition Expr :: "pv \<Rightarrow> pv" where
  "Expr v = AST ''Expr'' [(''value'', v)]"

definition Call :: "pv \<Rightarrow> pv list \<Rightarrow> pv list \<Rightarrow> pv" where
  "Call f args keywords =
     AST ''Call'' [(''func'', f), (''args'', PList args), (''keywords'', PList keywords)]"

definition keyword :: "string \<Rightarrow> pv \<Rightarrow> pv" where
  "keyword a v = AST ''keyword'' [(''arg'', PStr a), (''value'', v)]"

definition Target :: "string \<Rightarrow> pv" where
  "Target n = AST ''Name'' [(''id'', PStr n), (''ctx'', AST ''Store'' [])]"

definition Attribute :: "pv \<Rightarrow> string \<Rightarrow> pv" where
  "Attribute v a = AST ''Attribute'' [(''value'', v), (''attr'', PStr a), (''ctx'', Load)]"

definition Constant :: "pv \<Rightarrow> pv" where
  "Constant v = AST ''Constant'' [(''value'', v), (''kind'', PNone)]"

definition For :: "pv \<Rightarrow> pv \<Rightarrow> pv list \<Rightarrow> pv list \<Rightarrow> pv" where
  "For target iter body orelse =
     AST ''For'' [(''target'', target), (''iter'', iter), (''body'', PList body),
                  (''orelse'', PList orelse), (''type_comment'', PNone)]"

definition Return :: "pv \<Rightarrow> pv" where
  "Return v = AST ''Return'' [(''value'', v)]"

definition arguments :: "string list \<Rightarrow> pv" where
  "arguments ns =
     AST ''arguments''
       [(''posonlyargs'', PList []),
        (''args'', PList (map (\<lambda>n. AST ''arg'' [(''arg'', PStr n), (''annotation'', PNone),
                                               (''type_comment'', PNone)]) ns)),
        (''vararg'', PNone), (''kwonlyargs'', PList []), (''kw_defaults'', PList []),
        (''kwarg'', PNone), (''defaults'', PList [])]"

definition FunctionDef :: "string \<Rightarrow> pv \<Rightarrow> pv list \<Rightarrow> pv list \<Rightarrow> pv" where
  "FunctionDef name args body decorator_list =
     AST ''FunctionDef'' [(''name'', PStr name), (''args'', args), (''body'', PList body),
                          (''decorator_list'', PList decorator_list), (''returns'', PNone),
                          (''type_comment'', PNone)]"

text \<open>\<^verbatim>\<open>for i in range(3): print(i)\<close>\<close>

definition loop_print :: pv where
  "loop_print =
     For (Target ''i'') (Call (Name ''range'') [Constant (PInt 3)] [])
         [Expr (Call (Name ''print'') [Name ''i''] [])] []"

text \<open>\<^verbatim>\<open>for i in range(3): obj.m(i)\<close>\<close>

definition loop_method :: pv where
  "loop_method =
     For (Target ''i'') (Call (Name ''range'') [Constant (PInt 3)] [])
         [Expr (Call (Attribute (Name ''obj'') ''m'') [Name ''i''] [])] []"

text \<open>\<^verbatim>\<open>set(values)\<close>, \<^verbatim>\<open>list(set(values))\<close> and \<^verbatim>\<open>list(set(values), key=k)\<close>\<close>

definition set_values :: pv where
  "set_values = Call (Name ''set'') [Name ''values''] []"

definition list_set_values :: pv where
  "list_set_values = Call (Name ''list'') [set_values] []"

definition list_set_key :: pv where
  "list_set_key = Call (Name ''list'') [set_values] [keyword ''key'' (Name ''k'')]"

text \<open>\<^verbatim>\<open>def fib(n): return n\<close>, with the decorators given.\<close>

definition fib_def :: "pv list \<Rightarrow> pv" where
  "fib_def decorator_list = FunctionDef ''fib'' (arguments [''n'']) [Return (Name ''n'')] decorator_list"

text \<open>
  A hand-built loop that has no \<^verbatim>\<open>iter\<close> attribute (the parser never returns such a
  node), and the loop \<^verbatim>\<open>for i in range(3): print(i)\<close> with that loop as its else
  block.
\<close>

definition loop_without_iter :: pv where
  "loop_without_iter =
     AST ''For'' [(''target'', Target ''i''),
                  (''body'', PList [Expr (Call (Name ''print'') [Name ''i''] [])]),
                  (''orelse'', PList []), (''type_comment'', PNone)]"

definition loop_hiding_loop :: pv where
  "loop_hiding_loop =
     For (Target ''i'') (Call (Name ''range'') [Constant (PInt 3)] [])
         [Expr (Call (Name ''print'') [Name ''i''] [])] [loop_without_iter]"

text \<open>
  The assignment \<^verbatim>\<open>x = "\xe4"\<close>: its source text is ASCII, the escape stands for the
  character 228, and the printer writes that character itself.
\<close>

definition Assign :: "pv list \<Rightarrow> pv \<Rightarrow> pv" where
  "Assign targets v =
     AST ''Assign'' [(''targets'', PList targets), (''value'', v), (''type_comment'', PNone)]"


definition escape_tree :: pv where
  "escape_tree = Module [Assign [Target ''x''] (Constant (PStr [CHR 0xE4]))]"







section \<open>Predicates for the second pass\<close>

text \<open>A call whose callee is the simple name \<^verbatim>\<open>set\<close>.\<close>

definition is_set_call :: "pv \<Rightarrow> bool" where
  "is_set_call x \<longleftrightarrow> isinstance x ''Call'' \<and>
     (\<exists>f. getattr x ''func'' = Inr f \<and> isinstance f ''Name'' \<and>
          getattr f ''id'' = Inr (PStr ''set''))"

text \<open>
  What a pass returns is settled when the next pass leaves it as it is: a node is visited
  again, the statements of a returned list are visited as members of the list they were
  spliced into.
\<close>

fun settled :: "pv \<Rightarrow> bool" where
  "settled (AST c fs) = (visit (AST c fs) = Inr (AST c fs))"
| "settled (PList zs) = (visit_items zs = Inr zs)"
| "settled _ = False"

definition node_settles :: "pv \<Rightarrow> bool" where
  "node_settles t \<longleftrightarrow> (\<not> reaches_fib t \<longrightarrow> (\<forall>r. visit t = Inr r \<longrightarrow> settled r))"

definition fields_settle :: "(string \<times> pv) list \<Rightarrow> bool" where
  "fields_settle fs \<longleftrightarrow>
     (\<not> reaches_fib_fields fs \<longrightarrow>
        (\<forall>fs'. visit_fields fs = Inr fs' \<longrightarrow> visit_fields fs' = Inr fs'))"

definition items_settle :: "pv list \<Rightarrow> bool" where
  "items_settle xs \<longleftrightarrow>
     (\<not> reaches_fib_items xs \<longrightarrow>
        (\<forall>ys. visit_items xs = Inr ys \<longrightarrow> visit_items ys = Inr ys))"

section \<open>Predicates for a loop without its iterable\<close>

text \<open>
  A loop whose target is a simple name and that has no \<^verbatim>\<open>iter\<close> attribute: the second
  test of line 28 reads the attribute that is not there.
\<close>

definition missing_iter :: "pv \<Rightarrow> bool" where
  "missing_iter node \<longleftrightarrow>
     (\<exists>t. getattr node ''target'' = Inr t \<and> isinstance t ''Name'') \<and>
     getattr node ''iter'' = Inl AttributeError"

text \<open>
  \<open>reaches_missing_iter t\<close> holds when such a loop lies in \<open>t\<close> where the pass comes to
  it: outside every \<^verbatim>\<open>For\<close>, \<^verbatim>\<open>Call\<close> and \<^verbatim>\<open>FunctionDef\<close> node.
\<close>

function reaches_missing_iter :: "pv \<Rightarrow> bool"
  and reaches_missing_iter_fields :: "(string \<times> pv) list \<Rightarrow> bool"
  and reaches_missing_iter_items :: "pv list \<Rightarrow> bool" where
  "reaches_missing_iter (AST c fs) =
     (if c = ''For'' then missing_iter (AST c fs)
      else if c = ''Call'' then False
      else if c = ''FunctionDef'' then False
      else reaches_missing_iter_fields fs)"
| "reaches_missing_iter (PList xs) = False"
| "reaches_missing_iter (PStr s) = False"
| "reaches_missing_iter (PBytes s) = False"
| "reaches_missing_iter (PInt i) = False"
| "reaches_missing_iter (PBool b) = False"
| "reaches_missing_iter PNone = False"
| "reaches_missing_iter (POpaque s) = False"
| "reaches_missing_iter_fields [] = False"
| "reaches_missing_iter_fields ((k, v) # fs) =
     (case v of
        PList xs \<Rightarrow> reaches_missing_iter_items xs \<or> reaches_missing_iter_fields fs
      | AST c a \<Rightarrow> reaches_missing_iter (AST c a) \<or> reaches_missing_iter_fields fs
      | _ \<Rightarrow> reaches_missing_iter_fields fs)"
| "reaches_missing_iter_items [] = False"
| "reaches_missing_iter_items (x # xs) = (reaches_missing_iter x \<or> reaches_missing_iter_items xs)"
  by pat_completeness auto
termination
  by (relation "measure (\<lambda>x. case x of
          Inl t \<Rightarrow> size t
        | Inr (Inl fs) \<Rightarrow> size_list (size_prod (\<lambda>_. 0) size) fs
        | Inr (Inr xs) \<Rightarrow> size_list size xs)") auto

text \<open>The exceptions of a pass are none of those line 113 catches.\<close>

definition node_raises :: "pv \<Rightarrow> bool" where
  "node_raises t \<longleftrightarrow> (\<forall>e. visit t = Inl e \<longrightarrow> \<not> caught e)"

definition fields_raise :: "(string \<times> pv) list \<Rightarrow> bool" where
  "fields_raise fs \<longleftrightarrow> (\<forall>e. visit_fields fs = Inl e \<longrightarrow> \<not> caught e)"





section \<open>Properties of the rules\<close>

lemmas tree_defs =
  Module_def Expr_def Call_def keyword_def Target_def Attribute_def Constant_def For_def
  Return_def arguments_def FunctionDef_def Name_def Load_def print_hello_def
  loop_print_def loop_method_def set_values_def list_set_values_def list_set_key_def
  fib_def_def loop_without_iter_def loop_hiding_loop_def Assign_def escape_tree_def

lemmas rule_defs = visit_For_def for_shape_def visit_Call_def visit_FunctionDef_def

lemma bind_Inl [simp]: "bind (Inl e) f = Inl e"
  by (simp add: bind_def)

lemma bind_Inr [simp]: "bind (Inr x) f = f x"
  by (simp add: bind_def)

lemma bind_eq_Inr: "bind m f = Inr y \<longleftrightarrow> (\<exists>x. m = Inr x \<and> f x = Inr y)"
  by (cases m) simp_all

lemma and_then_simps [simp]:
  "and_then (Inl e) b = Inl e"
  "and_then (Inr True) b = b"
  "and_then (Inr False) b = Inr False"
  by (simp_all add: and_then_def)

lemma and_then_eq_Inr_True: "and_then a b = Inr True \<longleftrightarrow> a = Inr True \<and> b = Inr True"
  by (cases a) (auto simp: and_then_def)

lemma lookup_update: "lookup k' (update k v fs) = (if k' = k then Some v else lookup k' fs)"
  by (induction fs) auto

lemma isinstance_setattr [simp]: "isinstance (setattr n k v) c = isinstance n c"
  by (cases n) simp_all

lemma isinstance_is_AST: "isinstance n c \<Longrightarrow> is_AST n"
  by (cases n) simp_all

lemma isinstance_AST: "isinstance n c \<Longrightarrow> \<exists>fs. n = AST c fs"
  by (cases n) simp_all

subsection \<open>The range-loop rule\<close>


lemma visit_For_cases: "visit_For n = Inr r \<Longrightarrow> r = n \<or> r = PList [print_hello]"
  by (auto simp: visit_For_def bind_eq_Inr split: if_splits)

lemma visit_items_hello: "visit_items [print_hello] = Inr [print_hello]"
  by (simp add: print_hello_def visit_Call_def Name_def Load_def)

subsection \<open>The set-wrapping rule\<close>

lemma visit_Call_fires:
  assumes "getattr node ''func'' = Inr f" "isinstance f ''Name''"
    and "getattr f ''id'' = Inr (PStr ''list'')"
    and "getattr node ''args'' = Inr (PList [x])" "isinstance x ''Call''"
    and "getattr x ''func'' = Inr g" "isinstance g ''Name''"
    and "getattr g ''id'' = Inr (PStr ''set'')"
  shows "visit_Call node = Inr x"
  using assms by (simp add: visit_Call_def)

lemma visit_Call_cases: "visit_Call n = Inr r \<Longrightarrow> r = n \<or> is_set_call r"
  unfolding visit_Call_def is_set_call_def
  by (auto simp: bind_eq_Inr and_then_eq_Inr_True split: if_splits)

lemma visit_Call_set: "is_set_call r \<Longrightarrow> visit_Call r = Inr r"
  unfolding visit_Call_def is_set_call_def by auto

subsection \<open>The memoization rule\<close>

lemma visit_FunctionDef_other:
  "getattr n ''name'' \<noteq> Inr (PStr ''fib'') \<Longrightarrow> visit_FunctionDef n = Inr r \<Longrightarrow> r = n"
  by (auto simp: visit_FunctionDef_def bind_eq_Inr split: if_splits)

lemma visit_FunctionDef_cases:
  "visit_FunctionDef n = Inr r \<Longrightarrow> r = n \<or> (\<exists>v. r = setattr n ''decorator_list'' v)"
  by (cases "getattr n ''name''"; cases "getattr n ''decorator_list''")
     (auto simp: visit_FunctionDef_def split: if_splits pv.splits)

lemma visit_FunctionDef_fires:
  assumes "getattr node ''name'' = Inr (PStr ''fib'')"
    and "getattr node ''decorator_list'' = Inr (PList ds)"
  shows "visit_FunctionDef node =
           Inr (setattr node ''decorator_list'' (PList (ds @ [Name ''lru_cache''])))"
  using assms by (simp add: visit_FunctionDef_def)

subsection \<open>The exceptions of the rules\<close>

lemma bind_eq_Inl: "bind m f = Inl e \<longleftrightarrow> m = Inl e \<or> (\<exists>x. m = Inr x \<and> f x = Inl e)"
  by (cases m) simp_all

lemma and_then_eq_Inl:
  "and_then a b = Inl e \<longleftrightarrow> a = Inl e \<or> (a = Inr True \<and> b = Inl e)"
  by (cases a) (auto simp: and_then_def)

lemma getattr_Inl: "getattr x k = Inl e \<Longrightarrow> \<not> caught e"
  by (cases x) (auto split: option.splits)

lemma py_len_Inl: "py_len x = Inl e \<Longrightarrow> \<not> caught e"
  by (cases x) auto

lemma item0_Inl: "item0 x = Inl e \<Longrightarrow> \<not> caught e"
  by (cases x rule: item0.cases) auto

lemma for_shape_Inl: "for_shape n = Inl e \<Longrightarrow> \<not> caught e"
  unfolding for_shape_def
  by (auto simp: and_then_eq_Inl bind_eq_Inl dest: getattr_Inl py_len_Inl item0_Inl)

lemma visit_For_Inl: "visit_For n = Inl e \<Longrightarrow> \<not> caught e"
  unfolding visit_For_def
  by (auto simp: bind_eq_Inl dest: for_shape_Inl getattr_Inl item0_Inl split: if_splits)

lemma visit_Call_Inl: "visit_Call n = Inl e \<Longrightarrow> \<not> caught e"
  unfolding visit_Call_def
  by (auto simp: and_then_eq_Inl bind_eq_Inl dest: getattr_Inl py_len_Inl item0_Inl split: if_splits)

lemma visit_FunctionDef_Inl: "visit_FunctionDef n = Inl e \<Longrightarrow> \<not> caught e"
  by (cases "getattr n ''name''"; cases "getattr n ''decorator_list''")
     (auto simp: visit_FunctionDef_def dest: getattr_Inl split: if_splits pv.splits)

section \<open>Properties of the traversal\<close>

lemma visit_items_append:
  "visit_items (xs @ ys) =
     bind (visit_items xs) (\<lambda>xs'. bind (visit_items ys) (\<lambda>ys'. Inr (xs' @ ys')))"
proof (induction xs)
  case Nil
  show ?case by (cases "visit_items ys") simp_all
next
  case (Cons x xs)
  show ?case
  proof (cases x)
    case (AST c a)
    show ?thesis
    proof (cases "visit (AST c a)")
      case (Inl e)
      then show ?thesis using AST by simp
    next
      case (Inr v)
      then show ?thesis using AST Cons.IH
        by (cases v; cases "visit_items xs"; cases "visit_items ys") simp_all
    qed
  qed (use Cons.IH in \<open>cases "visit_items xs"; cases "visit_items ys"; simp\<close>)+
qed

declare visit.simps(1) [simp del] reaches_fib.simps(1) [simp del]
  reaches_missing_iter.simps(1) [simp del]

lemma visit_rule_settled:
  assumes "c = ''For'' \<or> c = ''Call'' \<or> c = ''FunctionDef''"
    and "\<not> reaches_fib (AST c fs)" and "visit (AST c fs) = Inr r"
  shows "settled r"
proof -
  consider (f) "c = ''For''" | (c) "c = ''Call''" | (d) "c = ''FunctionDef''"
    using assms(1) by blast
  then show ?thesis
  proof cases
    case f
    then have "r = AST c fs \<or> r = PList [print_hello]"
      using assms(3) visit_For_cases by (simp add: visit.simps(1))
    then show ?thesis using assms(3) visit_items_hello by auto
  next
    case c
    then have v: "visit_Call (AST c fs) = Inr r" using assms(3) by (simp add: visit.simps(1))
    from visit_Call_cases[OF v] show ?thesis
    proof
      assume "r = AST c fs" then show ?thesis using assms(3) by simp
    next
      assume s: "is_set_call r"
      then obtain c' fs' where r: "r = AST c' fs'" "c' = ''Call''"
        by (cases r) (auto simp: is_set_call_def)
      then show ?thesis using visit_Call_set[OF s] by (simp add: visit.simps(1))
    qed
  next
    case d
    then have "visit_FunctionDef (AST c fs) = Inr r"
      and "getattr (AST c fs) ''name'' \<noteq> Inr (PStr ''fib'')"
      using assms(2,3) by (simp_all add: visit.simps(1) reaches_fib.simps(1))
    then have "r = AST c fs" using visit_FunctionDef_other by blast
    then show ?thesis using assms(3) by simp
  qed
qed

lemma node_settles_AST:
  assumes "c \<noteq> ''For'' \<Longrightarrow> c \<noteq> ''Call'' \<Longrightarrow> c \<noteq> ''FunctionDef'' \<Longrightarrow> fields_settle fs"
  shows "node_settles (AST c fs)"
proof (cases "c = ''For'' \<or> c = ''Call'' \<or> c = ''FunctionDef''")
  case True
  then show ?thesis unfolding node_settles_def using visit_rule_settled by blast
next
  case False
  then have g: "visit (AST c fs') = bind (visit_fields fs') (\<lambda>fs'. Inr (AST c fs'))" for fs'
    by (simp add: visit.simps(1))
  have n: "reaches_fib (AST c fs) = reaches_fib_fields fs"
    using False by (simp add: reaches_fib.simps(1))
  have ih: "fields_settle fs" using assms False by blast
  show ?thesis unfolding node_settles_def
  proof (intro impI allI)
    fix r assume a: "\<not> reaches_fib (AST c fs)" "visit (AST c fs) = Inr r"
    then obtain fs' where f: "visit_fields fs = Inr fs'" "r = AST c fs'"
      unfolding g by (auto simp: bind_eq_Inr)
    then have "visit_fields fs' = Inr fs'" using ih a n unfolding fields_settle_def by blast
    then show "settled r" using f by (simp add: g)
  qed
qed

lemma fields_settle_Cons:
  assumes ih: "fields_settle fs" and v: "\<And>c a. v = AST c a \<Longrightarrow> node_settles v"
    and l: "\<And>xs. v = PList xs \<Longrightarrow> items_settle xs"
  shows "fields_settle ((k, v) # fs)"
  unfolding fields_settle_def
proof (intro impI allI)
  fix fs' assume nf: "\<not> reaches_fib_fields ((k, v) # fs)"
    and vf: "visit_fields ((k, v) # fs) = Inr fs'"
  have nf2: "\<not> reaches_fib_fields fs" using nf by (cases v) simp_all
  have tl: "visit_fields fs = Inr fs2 \<Longrightarrow> visit_fields fs2 = Inr fs2" for fs2
    using ih nf2 unfolding fields_settle_def by blast
  show "visit_fields fs' = Inr fs'"
  proof (cases v)
    case (AST c a)
    from vf AST obtain r where r: "visit (AST c a) = Inr r" by (auto simp: bind_eq_Inr)
    have "\<not> reaches_fib (AST c a)" using nf AST by simp
    then have sr: "settled r" using v[OF AST] r AST unfolding node_settles_def by blast
    then have "r \<noteq> PNone" by auto
    then obtain fs2 where fs2: "visit_fields fs = Inr fs2" "fs' = (k, r) # fs2"
      using vf AST r by (auto simp: bind_eq_Inr)
    then show ?thesis using sr tl by (cases r) simp_all
  next
    case (PList xs)
    from vf PList obtain ys fs2 where
      y: "visit_items xs = Inr ys" "visit_fields fs = Inr fs2" "fs' = (k, PList ys) # fs2"
      by (auto simp: bind_eq_Inr)
    have "\<not> reaches_fib_items xs" using nf PList by simp
    then have "visit_items ys = Inr ys" using l[OF PList] y(1) unfolding items_settle_def by blast
    then show ?thesis using y tl by simp
  qed (use vf tl in \<open>auto simp: bind_eq_Inr\<close>)
qed

lemma items_settle_Cons:
  assumes ih: "items_settle xs" and v: "\<And>c a. x = AST c a \<Longrightarrow> node_settles x"
  shows "items_settle (x # xs)"
  unfolding items_settle_def
proof (intro impI allI)
  fix ys assume nf: "\<not> reaches_fib_items (x # xs)" and vi: "visit_items (x # xs) = Inr ys"
  have nf1: "\<not> reaches_fib x" and nf2: "\<not> reaches_fib_items xs" using nf by simp_all
  have tl: "visit_items xs = Inr ys2 \<Longrightarrow> visit_items ys2 = Inr ys2" for ys2
    using ih nf2 unfolding items_settle_def by blast
  show "visit_items ys = Inr ys"
  proof (cases x)
    case (AST c a)
    from vi AST obtain r where r: "visit (AST c a) = Inr r" by (auto simp: bind_eq_Inr)
    have sr: "settled r" using v[OF AST] r AST nf1 unfolding node_settles_def by blast
    show ?thesis
    proof (cases r)
      case (AST c' a')
      then obtain ys2 where ys2: "visit_items xs = Inr ys2" "ys = r # ys2"
        using vi \<open>x = AST c a\<close> r by (auto simp: bind_eq_Inr)
      then show ?thesis using sr tl AST by simp
    next
      case (PList zs)
      then obtain ys2 where ys2: "visit_items xs = Inr ys2" "ys = zs @ ys2"
        using vi \<open>x = AST c a\<close> r by (auto simp: bind_eq_Inr)
      then show ?thesis using sr tl PList by (simp add: visit_items_append)
    qed (use sr in simp_all)
  qed (use vi tl in \<open>auto simp: bind_eq_Inr\<close>)
qed

lemma pass_settles:
  "node_settles t" "fields_settle fs" "items_settle xs"
proof (induction t and fs and xs rule: visit_visit_fields_visit_items.induct)
  case (1 c fs)
  show ?case
  proof (rule node_settles_AST)
    assume "c \<noteq> ''For''" "c \<noteq> ''Call''" "c \<noteq> ''FunctionDef''"
    then show "fields_settle fs" using 1 by (cases "c = ''ListComp''") blast+
  qed
next
  case (10 k v fs)
  have "fields_settle fs" using 10 by (cases v) blast+
  then show ?case using 10 by (intro fields_settle_Cons) blast+
next
  case (12 x xs)
  have "items_settle xs" using 12 by (cases x) blast+
  then show ?case using 12 by (intro items_settle_Cons) blast+
qed (simp_all add: node_settles_def fields_settle_def items_settle_def)


text \<open>
  A visit returns a node or a list of statements, so the remaining branches of the splice
  in \<^const>\<open>visit_items\<close> are never taken; only \<^verbatim>\<open>visit_For\<close> returns a list.
\<close>

lemma visit_returns_node:
  assumes "visit t = Inr r" and "\<not> isinstance t ''For''"
  shows "is_AST r"
proof (cases t)
  case (AST c fs)
  consider (c) "c = ''Call''" | (d) "c = ''FunctionDef''"
    | (g) "c \<noteq> ''For''" "c \<noteq> ''Call''" "c \<noteq> ''FunctionDef''"
    using assms(2) AST by auto
  then show ?thesis
  proof cases
    case c
    then have "visit_Call t = Inr r" using assms(1) AST by (simp add: visit.simps(1))
    then have "r = t \<or> is_set_call r" by (rule visit_Call_cases)
    then show ?thesis using AST isinstance_is_AST by (auto simp: is_set_call_def)
  next
    case d
    then have "visit_FunctionDef t = Inr r" using assms(1) AST by (simp add: visit.simps(1))
    then have "r = t \<or> (\<exists>v. r = setattr t ''decorator_list'' v)"
      by (rule visit_FunctionDef_cases)
    then show ?thesis using AST by auto
  next
    case g
    then show ?thesis using assms(1) AST by (auto simp: visit.simps(1) bind_eq_Inr)
  qed
qed (use assms(1) in simp_all)

lemma visit_returns_node_or_list:
  assumes "visit t = Inr r"
  shows "is_AST r \<or> (\<exists>zs. r = PList zs)"
proof (cases "isinstance t ''For''")
  case True
  then obtain fs where "t = AST ''For'' fs" using isinstance_AST by blast
  then have "visit_For t = Inr r" using assms by (simp add: visit.simps(1))
  then have "r = t \<or> r = PList [print_hello]" by (rule visit_For_cases)
  then show ?thesis using \<open>t = AST ''For'' fs\<close> by auto
next
  case False
  then show ?thesis using assms visit_returns_node by blast
qed

subsection \<open>Failure of the pass\<close>

lemma node_raises_AST:
  assumes "fields_raise fs"
  shows "node_raises (AST c fs)"
  unfolding node_raises_def
proof (intro allI impI)
  fix e assume v: "visit (AST c fs) = Inl e"
  consider (f) "c = ''For''" | (c) "c = ''Call''" | (d) "c = ''FunctionDef''"
    | (g) "c \<noteq> ''For''" "c \<noteq> ''Call''" "c \<noteq> ''FunctionDef''" by blast
  then show "\<not> caught e"
  proof cases
    case f then show ?thesis using v visit_For_Inl by (simp add: visit.simps(1))
  next
    case c then show ?thesis using v visit_Call_Inl by (simp add: visit.simps(1))
  next
    case d then show ?thesis using v visit_FunctionDef_Inl by (simp add: visit.simps(1))
  next
    case g
    then have "visit_fields fs = Inl e" using v by (auto simp: visit.simps(1) bind_eq_Inl)
    then show ?thesis using assms unfolding fields_raise_def by blast
  qed
qed










section \<open>Properties of the file handling\<close>




section \<open>The claims\<close>

lemmas eval_simps = tree_defs rule_defs visit.simps(1) reaches_fib.simps(1)

subsection \<open>C1: running the pass twice\<close>

text \<open>
  C1, as stated, fails. The memoization rule appends its decorator without looking at the
  decorators already there: the pass over \<^verbatim>\<open>def fib(n): return n\<close> gives the function one
  \<^verbatim>\<open>lru_cache\<close>, the pass over the result gives it a second one.
\<close>

theorem rewrite_twice_fib_counterexample:
  "visit (Module [fib_def []]) = Inr (Module [fib_def [Name ''lru_cache'']]) \<and>
   visit (Module [fib_def [Name ''lru_cache'']])
     = Inr (Module [fib_def [Name ''lru_cache'', Name ''lru_cache'']]) \<and>
   Module [fib_def [Name ''lru_cache'', Name ''lru_cache'']] \<noteq> Module [fib_def [Name ''lru_cache'']]"
  by (simp add: eval_simps)

text \<open>
  C1, amended. Let the pass over a tree \<open>t\<close> reach no function declaration named
  \<^verbatim>\<open>fib\<close>, let \<open>t\<close> not be a \<^verbatim>\<open>For\<close> node itself (the parser returns a module),
  and let the pass succeed with the tree \<open>r\<close>. Then the pass over \<open>r\<close> returns \<open>r\<close>.
\<close>

theorem rewrite_idempotent_without_fib:
  assumes "\<not> reaches_fib t" and "\<not> isinstance t ''For''" and "visit t = Inr r"
  shows "visit r = Inr r"
proof -
  have "settled r" using pass_settles(1)[of t] assms(1,3) unfolding node_settles_def by blast
  moreover have "is_AST r" using assms(3,2) by (rule visit_returns_node)
  ultimately show ?thesis by (cases r) simp_all
qed

text \<open>
  C1, amended, on the module \<^verbatim>\<open>for i in range(3): print(i)\<close> followed by
  \<^verbatim>\<open>list(set(values))\<close>.
\<close>

theorem rewrite_idempotent_without_fib_witness:
  "\<not> reaches_fib (Module [loop_print, Expr list_set_values]) \<and>
   \<not> isinstance (Module [loop_print, Expr list_set_values]) ''For'' \<and>
   visit (Module [loop_print, Expr list_set_values]) = Inr (Module [print_hello, Expr set_values]) \<and>
   visit (Module [print_hello, Expr set_values]) = Inr (Module [print_hello, Expr set_values])"
proof -
  have a: "\<not> reaches_fib (Module [loop_print, Expr list_set_values])"
    by (simp add: eval_simps)
  have b: "\<not> isinstance (Module [loop_print, Expr list_set_values]) ''For''"
    by (simp add: Module_def)
  have c: "visit (Module [loop_print, Expr list_set_values]) = Inr (Module [print_hello, Expr set_values])"
    by (simp add: eval_simps)
  show ?thesis using a b c rewrite_idempotent_without_fib[OF a b c] by simp
qed

subsection \<open>C2: what the pass reaches\<close>

text \<open>
  C2 asks for every nested pattern to be rewritten in the one pass. The pass over a module
  leaves \<^verbatim>\<open>print(list(set(values)))\<close> as it is, and leaves a function body and a loop
  body holding the range loop and \<^verbatim>\<open>list(set(values))\<close> as they are:
  \<^verbatim>\<open>visit_Call\<close>, \<^verbatim>\<open>visit_FunctionDef\<close> and \<^verbatim>\<open>visit_For\<close> return without
  visiting the children of their node.
\<close>

theorem nested_patterns_not_rewritten:
  "visit (Module [Expr (Call (Name ''print'') [list_set_values] [])])
     = Inr (Module [Expr (Call (Name ''print'') [list_set_values] [])]) \<and>
   visit (Module [FunctionDef ''f'' (arguments []) [loop_print, Return list_set_values] []])
     = Inr (Module [FunctionDef ''f'' (arguments []) [loop_print, Return list_set_values] []]) \<and>
   visit (Module [For (Target ''i'') (Call (Name ''range'') [Constant (PInt 3)] []) [loop_print, Expr list_set_values] []])
     = Inr (Module [For (Target ''i'') (Call (Name ''range'') [Constant (PInt 3)] []) [loop_print, Expr list_set_values] []])"
  by (simp add: eval_simps)

subsection \<open>C3: keyword arguments of the set-wrapping rule\<close>

text \<open>
  C3, as stated, fails: \<^verbatim>\<open>list(set(values), key=k)\<close> is rewritten to
  \<^verbatim>\<open>set(values)\<close>.
\<close>

theorem list_set_keyword_counterexample:
  "visit list_set_key = Inr set_values \<and> set_values \<noteq> list_set_key"
  by (simp add: eval_simps)

text \<open>
  C3, amended. The rule reads the callee and the positional arguments only. A call of the
  simple name \<^verbatim>\<open>list\<close> whose one positional argument is a call of the simple name
  \<^verbatim>\<open>set\<close> is replaced by that argument, whatever keyword arguments the outer and the
  inner call carry; those of the outer call are dropped with it.
\<close>

theorem visit_Call_ignores_keywords:
  "visit (AST ''Call'' [(''func'', AST ''Name'' [(''id'', PStr ''list''), (''ctx'', c)]),
                        (''args'', PList [AST ''Call'' [(''func'', AST ''Name'' [(''id'', PStr ''set''), (''ctx'', c')]),
                                                        (''args'', inner_args), (''keywords'', inner_keywords)]]),
                        (''keywords'', outer_keywords)])
   = Inr (AST ''Call'' [(''func'', AST ''Name'' [(''id'', PStr ''set''), (''ctx'', c')]),
                        (''args'', inner_args), (''keywords'', inner_keywords)])"
  by (simp add: visit.simps(1) visit_Call_def)

subsection \<open>C4: a loop body that calls a method\<close>

text \<open>
  C4 asks that no precondition faults. On \<^verbatim>\<open>for i in range(3): obj.m(i)\<close> the rule
  reads \<^verbatim>\<open>.id\<close> of the callee \<^verbatim>\<open>obj.m\<close>, an \<^verbatim>\<open>Attribute\<close> node, without testing
  that it is a \<^verbatim>\<open>Name\<close>: the pass raises \<^verbatim>\<open>AttributeError\<close>, and \<^verbatim>\<open>optimize_code\<close>
  does not handle it.
\<close>

theorem visit_For_attribute_callee_raises:
  "visit_For loop_method = Inl AttributeError \<and>
   visit (Module [loop_method]) = Inl AttributeError \<and>
   optimize_code \<lparr>ast_parse = (\<lambda>src. Inr (Module [loop_method])), ast_unparse = unparse,
                   file_decode = Inr, file_encode = encode, read_only = ro, disk = device\<rparr>
                 [p \<mapsto> src] p = (Raised AttributeError, [p \<mapsto> src])"
  by (simp add: eval_simps optimize_code_def optimized_code_def read_file_def handle_def)

subsection \<open>C5: the range-loop rule\<close>



subsection \<open>C6: the set-wrapping rule\<close>

text \<open>
  C6. A \<^verbatim>\<open>Call\<close> node whose callee is the simple name \<^verbatim>\<open>list\<close> and whose one
  positional argument is a call of the simple name \<^verbatim>\<open>set\<close> is visited to that
  argument. The keyword arguments play no part, so the case without any is included.
\<close>

theorem visit_Call_list_set:
  assumes "isinstance node ''Call''"
    and "getattr node ''func'' = Inr f" "isinstance f ''Name''"
    and "getattr f ''id'' = Inr (PStr ''list'')"
    and "getattr node ''args'' = Inr (PList [x])" "isinstance x ''Call''"
    and "getattr x ''func'' = Inr g" "isinstance g ''Name''"
    and "getattr g ''id'' = Inr (PStr ''set'')"
  shows "visit node = Inr x"
proof -
  obtain fs where n: "node = AST ''Call'' fs" using assms(1) isinstance_AST by blast
  have "visit_Call node = Inr x" using assms(2-9) by (rule visit_Call_fires)
  then show ?thesis using n by (simp add: visit.simps(1))
qed

text \<open>
  C6 on \<^verbatim>\<open>list(set(values))\<close>, alone and as a statement of a module.
\<close>

theorem visit_Call_list_set_witness:
  "visit list_set_values = Inr set_values \<and>
   visit (Module [Expr list_set_values]) = Inr (Module [Expr set_values])"
proof -
  have "visit list_set_values = Inr set_values"
    by (rule visit_Call_list_set[where f = "Name ''list''" and g = "Name ''set''"])
       (simp_all add: tree_defs)
  then show ?thesis by (simp add: Module_def Expr_def visit.simps(1) list_set_values_def set_values_def Call_def)
qed

subsection \<open>C7: the memoization rule\<close>

text \<open>
  C7. A function declaration named \<^verbatim>\<open>fib\<close> is visited to the same declaration with
  the name \<^verbatim>\<open>lru_cache\<close> appended to its decorators: the decorators that were there
  come first and in their order, and every other attribute (name, parameters, body) is as
  before.
\<close>

theorem visit_FunctionDef_fib_appends:
  assumes "isinstance node ''FunctionDef''"
    and "getattr node ''name'' = Inr (PStr ''fib'')"
    and "getattr node ''decorator_list'' = Inr (PList ds)"
  shows "\<exists>r. visit node = Inr r \<and> r = setattr node ''decorator_list'' (PList (ds @ [Name ''lru_cache''])) \<and>
           isinstance r ''FunctionDef'' \<and>
           getattr r ''decorator_list'' = Inr (PList (ds @ [Name ''lru_cache''])) \<and>
           (\<forall>k. k \<noteq> ''decorator_list'' \<longrightarrow> getattr r k = getattr node k)"
proof -
  obtain fs where n: "node = AST ''FunctionDef'' fs" using assms(1) isinstance_AST by blast
  let ?r = "setattr node ''decorator_list'' (PList (ds @ [Name ''lru_cache'']))"
  have "visit_FunctionDef node = Inr ?r" using assms(2,3) by (rule visit_FunctionDef_fires)
  then have "visit node = Inr ?r" using n by (simp add: visit.simps(1))
  moreover have "isinstance ?r ''FunctionDef''" using assms(1) by simp
  moreover have "getattr ?r k = (if k = ''decorator_list'' then Inr (PList (ds @ [Name ''lru_cache''])) else getattr node k)" for k
    using n by (simp add: lookup_update)
  ultimately show ?thesis by auto
qed

text \<open>
  C7 on \<^verbatim>\<open>def fib(n): return n\<close> carrying one decorator.
\<close>

theorem visit_FunctionDef_fib_appends_witness:
  "visit (fib_def [Name ''staticmethod'']) = Inr (fib_def [Name ''staticmethod'', Name ''lru_cache''])"
  using visit_FunctionDef_fib_appends[of "fib_def [Name ''staticmethod'']" "[Name ''staticmethod'']"]
  by (simp add: tree_defs)

subsection \<open>C8: what a failure leaves in the file\<close>




subsection \<open>C9: a loop that lacks its iterable\<close>




subsection \<open>C10: the else block of a range loop\<close>



end
